theory Spec2Isabelle
  imports Main "HOL-Library.AList" "HOL-Library.Char_ord" "HOL-Library.List_Lexorder"
begin

section \<open>Strings, Go maps and sorting\<close>

text \<open>
  A Go \<open>string\<close> is a sequence of bytes: \<open>string\<close> (a \<open>char list\<close>) here. Go compares
  strings byte-wise and lexicographically, which is the order of
  \<open>HOL-Library.List_Lexorder\<close> over the byte order of \<open>HOL-Library.Char_ord\<close>.

  A Go \<open>map[string]string\<close> is an association list with distinct keys. The order of
  the list stands for the order in which \<open>range\<close> visits the map, which Go leaves
  unspecified: a property of a map holds for every list with the same contents.
\<close>

type_synonym gomap = "(string \<times> string) list"

text \<open>\<open>params[key]\<close>: a missing key reads as the empty string.\<close>

definition index :: "gomap \<Rightarrow> string \<Rightarrow> string" where
  "index params key = (case map_of params key of None \<Rightarrow> [] | Some v \<Rightarrow> v)"

text \<open>\<open>params[key] = v\<close>\<close>

definition assign :: "gomap \<Rightarrow> string \<Rightarrow> string \<Rightarrow> gomap" where
  "assign params key v = AList.update key v params"

text \<open>\<open>for key, _ := range params { keys = append(keys, key) }\<close>\<close>

definition range_keys :: "gomap \<Rightarrow> string list" where
  "range_keys params = map fst params"

text \<open>
  \<open>sort.StringSlice(keys).Sort()\<close>: the keys in ascending order. The keys of a map are
  distinct, so the sorted slice is unique whatever the sorting algorithm.
\<close>

definition Sort :: "string list \<Rightarrow> string list" where
  "Sort keys = sort keys"

text \<open>\<open>strings.Join\<close>, used to state what the loops build.\<close>

fun Join :: "string list \<Rightarrow> string \<Rightarrow> string" where
  "Join [] sep = []"
| "Join [x] sep = x"
| "Join (x # y # ys) sep = x @ sep @ Join (y # ys) sep"

section \<open>net/url: QueryEscape\<close>

text \<open>
  \<open>url.QueryEscape\<close> is Go's standard library, not part of the repository. It is
  transcribed from \<open>net/url\<close> (\<open>shouldEscape\<close> and \<open>escape\<close> in mode
  \<open>encodeQueryComponent\<close>): letters, digits and \<open>- _ . ~\<close> are kept, a space becomes
  \<open>+\<close>, every other byte \<open>c\<close> becomes \<open>%\<close> followed by the two upper-case hexadecimal
  digits \<open>c>>4\<close> and \<open>c&15\<close>.
\<close>

definition upperhex :: string where
  "upperhex = ''0123456789ABCDEF''"

text \<open>\<open>lo <= c && c <= hi\<close> on bytes.\<close>

definition within :: "char \<Rightarrow> char \<Rightarrow> char \<Rightarrow> bool" where
  "within lo hi c = (lo \<le> c \<and> c \<le> hi)"

definition shouldEscape :: "char \<Rightarrow> bool" where
  "shouldEscape c =
     (if within (CHR ''a'') (CHR ''z'') c \<or> within (CHR ''A'') (CHR ''Z'') c
         \<or> within (CHR ''0'') (CHR ''9'') c then False
      else if c = CHR ''-'' \<or> c = CHR ''_'' \<or> c = CHR ''.'' \<or> c = CHR ''~'' then False
      else True)"

definition escape_byte :: "char \<Rightarrow> string" where
  "escape_byte c =
     (if c = CHR '' '' then ''+''
      else if shouldEscape c then
        [CHR ''%'', upperhex ! (of_char c div 16), upperhex ! (of_char c mod 16)]
      else [c])"

definition QueryEscape :: "string \<Rightarrow> string" where
  "QueryEscape s = concat (map escape_byte s)"

section \<open>The Signer: requestString and authorizationString\<close>

text \<open>
  The loop of \<open>requestString\<close> (lines 308-315): \<open>pos\<close> is the index of \<open>key\<close> in the
  sorted slice, \<open>result\<close> the string built so far.
\<close>

fun requestString_loop :: "nat \<Rightarrow> string list \<Rightarrow> gomap \<Rightarrow> string \<Rightarrow> string" where
  "requestString_loop pos [] params result = result"
| "requestString_loop pos (key # keys) params result =
     requestString_loop (Suc pos) keys params
       ((result @ (if pos = 0 then ''&'' else QueryEscape ''&''))
         @ QueryEscape (key @ ''='' @ QueryEscape (index params key)))"

definition requestString :: "string \<Rightarrow> string \<Rightarrow> gomap \<Rightarrow> string" where
  "requestString method uri params =
     (let keys = Sort (range_keys params);
          result = method @ ''&'' @ QueryEscape uri
      in requestString_loop 0 keys params result)"

text \<open>The loop of \<open>authorizationString\<close> (lines 335-341).\<close>

fun authorizationString_loop :: "nat \<Rightarrow> string list \<Rightarrow> gomap \<Rightarrow> string \<Rightarrow> string" where
  "authorizationString_loop pos [] params result = result"
| "authorizationString_loop pos (key # keys) params result =
     authorizationString_loop (Suc pos) keys params
       ((result @ (if pos > 0 then '','' else ''''))
         @ key @ ''=\"'' @ index params key @ ''\"'')"

definition authorizationString :: "gomap \<Rightarrow> string" where
  "authorizationString params =
     (let keys = Sort (range_keys params);
          result = ''OAuth ''
      in authorizationString_loop 0 keys params result)"

section \<open>The Signer as the specification words it\<close>

text \<open>
  The base string in the specification's words: the method, the encoded URL and the
  encoded \<open>&\<close>-joined \<open>key=value\<close> pairs (each value encoded first), the three joined
  by \<open>&\<close>, the keys in ascending order. The encoding is the Signer's, \<open>QueryEscape\<close>.
\<close>

definition buildBaseString :: "string \<Rightarrow> string \<Rightarrow> gomap \<Rightarrow> string" where
  "buildBaseString method url params =
     method @ ''&'' @ QueryEscape url @ ''&''
       @ QueryEscape (Join (map (\<lambda>key. key @ ''='' @ QueryEscape (index params key))
                              (sorted_list_of_set (fst ` set params))) ''&'')"

text \<open>
  The header in the specification's words: \<open>OAuth\<close>, a space, and the comma-separated
  \<open>key="value"\<close> pairs in ascending key order, the values as they are.
\<close>

definition buildAuthorizationHeader :: "gomap \<Rightarrow> string" where
  "buildAuthorizationHeader params =
     ''OAuth '' @ Join (map (\<lambda>key. key @ ''=\"'' @ index params key @ ''\"'')
                            (sorted_list_of_set (fst ` set params))) '',''"

text \<open>
  Percent-encoding in the specification's words: the unreserved characters
  \<open>A-Z a-z 0-9 - . _ ~\<close> stay, every other byte is escaped as \<open>%XX\<close>.
\<close>

definition unreserved :: "char \<Rightarrow> bool" where
  "unreserved c =
     (c \<in> set ''ABCDEFGHIJKLMNOPQRSTUVWXYZabcdefghijklmnopqrstuvwxyz0123456789-._~'')"

definition percentEncode :: "string \<Rightarrow> string" where
  "percentEncode s =
     concat (map (\<lambda>c. if unreserved c then [c]
                       else [CHR ''%'', upperhex ! (of_char c div 16),
                             upperhex ! (of_char c mod 16)]) s)"

section \<open>Properties of the Signer\<close>

lemma QueryEscape_append: "QueryEscape (s @ t) = QueryEscape s @ QueryEscape t"
  by (simp add: QueryEscape_def)

lemma Join_Cons: "Join (x # xs) sep = x @ concat (map (\<lambda>y. sep @ y) xs)"
  by (induction xs arbitrary: x) simp_all

lemma QueryEscape_Join_Cons:
  "QueryEscape (Join (x # xs) sep) =
     QueryEscape x @ concat (map (\<lambda>y. QueryEscape sep @ QueryEscape y) xs)"
proof -
  have "QueryEscape (concat (map (\<lambda>y. sep @ y) xs)) =
          concat (map (\<lambda>y. QueryEscape sep @ QueryEscape y) xs)"
    by (induction xs) (simp_all add: QueryEscape_append QueryEscape_def)
  then show ?thesis
    by (simp only: Join_Cons QueryEscape_append)
qed

lemma requestString_loop_Suc:
  "requestString_loop (Suc pos) keys params result =
     result @ concat (map (\<lambda>key. QueryEscape ''&''
        @ QueryEscape (key @ ''='' @ QueryEscape (index params key))) keys)"
  by (induction keys arbitrary: pos result) simp_all

lemma requestString_loop_0:
  "requestString_loop 0 keys params result =
     (if keys = [] then result
      else result @ ''&'' @ QueryEscape (Join (map (\<lambda>key. key @ ''=''
             @ QueryEscape (index params key)) keys) ''&''))"
  by (cases keys)
     (simp_all add: requestString_loop_Suc QueryEscape_Join_Cons comp_def del: Join.simps)

lemma Sort_range_keys:
  "distinct (map fst params) \<Longrightarrow>
     Sort (range_keys params) = sorted_list_of_set (fst ` set params)"
proof -
  assume "distinct (map fst params)"
  then have "sort (map fst params) = sort (remdups (map fst params))"
    by (simp add: distinct_remdups_id)
  also have "\<dots> = sorted_list_of_set (set (map fst params))"
    by (simp only: sorted_list_of_set_sort_remdups)
  finally show ?thesis by (simp add: Sort_def range_keys_def)
qed

lemma index_cong: "map_of params' = map_of params \<Longrightarrow> index params' = index params"
  by (simp add: index_def fun_eq_iff)

lemma keys_cong: "map_of params' = map_of params \<Longrightarrow> fst ` set params' = fst ` set params"
  by (metis dom_map_of_conv_image_fst)

lemma requestString_eq:
  assumes "distinct (map fst params)"
  shows "requestString method uri params =
     (if params = [] then method @ ''&'' @ QueryEscape uri
      else buildBaseString method uri params)"
  using assms
  by (simp add: requestString_def buildBaseString_def Sort_range_keys requestString_loop_0)

lemma authorizationString_loop_Suc:
  "authorizationString_loop (Suc pos) keys params result =
     result @ concat (map (\<lambda>key. '','' @ key @ ''=\"'' @ index params key @ ''\"'') keys)"
  by (induction keys arbitrary: pos result) simp_all

lemma authorizationString_loop_0:
  "authorizationString_loop 0 keys params result =
     result @ Join (map (\<lambda>key. key @ ''=\"'' @ index params key @ ''\"'') keys) '',''"
  by (cases keys) (simp_all add: authorizationString_loop_Suc Join_Cons comp_def)

lemma authorizationString_eq:
  assumes "distinct (map fst params)"
  shows "authorizationString params = buildAuthorizationHeader params"
  using assms
  by (simp add: authorizationString_def buildAuthorizationHeader_def Sort_range_keys
        authorizationString_loop_0)

lemma last_Join:
  "xs \<noteq> [] \<Longrightarrow> \<forall>x\<in>set xs. x \<noteq> [] \<and> last x = c \<Longrightarrow>
     Join xs sep \<noteq> [] \<and> last (Join xs sep) = c"
  by (induction xs sep rule: Join.induct) auto

lemma no_trailing_comma: "last (buildAuthorizationHeader params) \<noteq> CHR '',''"
proof (cases "sorted_list_of_set (fst ` set params) = []")
  case True
  then show ?thesis by (simp add: buildAuthorizationHeader_def)
next
  case False
  then have "Join (map (\<lambda>key. key @ ''=\"'' @ index params key @ ''\"'')
                            (sorted_list_of_set (fst ` set params))) '','' \<noteq> [] \<and>
     last (Join (map (\<lambda>key. key @ ''=\"'' @ index params key @ ''\"'')
                            (sorted_list_of_set (fst ` set params))) '','') = CHR 0x22"
    by (intro last_Join) auto
  then show ?thesis by (simp add: buildAuthorizationHeader_def)
qed

lemma shouldEscape_unreserved: "\<forall>c. shouldEscape c = (\<not> unreserved c)"
  by code_simp

text \<open>
  C1 (amended). For a map with at least one key, \<open>requestString\<close> returns the method,
  the encoded URL and the encoded \<open>&\<close>-joined \<open>key=value\<close> pairs (keys ascending, each
  value encoded before its pair), joined by \<open>&\<close>; for the empty map it returns the method
  and the encoded URL alone, with no second \<open>&\<close>. The result is the same for every
  iteration order of one map.
\<close>

theorem requestString_base_string:
  assumes "distinct (map fst params)" and "distinct (map fst params')"
    and "map_of params' = map_of params"
  shows "requestString method uri params =
           (if params = [] then method @ ''&'' @ QueryEscape uri
            else buildBaseString method uri params)
         \<and> requestString method uri params' = requestString method uri params"
proof -
  have eq: "buildBaseString method uri params' = buildBaseString method uri params"
    unfolding buildBaseString_def index_cong [OF assms(3)] keys_cong [OF assms(3)] ..
  have emp: "params' = [] \<longleftrightarrow> params = []"
    using keys_cong [OF assms(3)] by auto
  have "requestString method uri params' = requestString method uri params"
    unfolding requestString_eq [OF assms(1)] requestString_eq [OF assms(2)] eq emp ..
  then show ?thesis
    using requestString_eq [OF assms(1)] by blast
qed

theorem requestString_base_string_witness:
  "distinct (map fst [(''b'', ''2 3''), (''a'', ''1'')])
   \<and> distinct (map fst [(''a'', ''1''), (''b'', ''2 3'')])
   \<and> map_of [(''a'', ''1''), (''b'', ''2 3'')] = map_of [(''b'', ''2 3''), (''a'', ''1'')]
   \<and> requestString ''GET'' ''http://example.com/'' [(''b'', ''2 3''), (''a'', ''1'')]
       = buildBaseString ''GET'' ''http://example.com/'' [(''b'', ''2 3''), (''a'', ''1'')]
   \<and> requestString ''GET'' ''http://example.com/'' [(''a'', ''1''), (''b'', ''2 3'')]
       = requestString ''GET'' ''http://example.com/'' [(''b'', ''2 3''), (''a'', ''1'')]"
proof -
  have d1: "distinct (map fst [(''b'', ''2 3''), (''a'', ''1'')])" by simp
  have d2: "distinct (map fst [(''a'', ''1''), (''b'', ''2 3'')])" by simp
  have m: "map_of [(''a'', ''1''), (''b'', ''2 3'')] = map_of [(''b'', ''2 3''), (''a'', ''1'')]"
    by (auto simp: fun_eq_iff)
  have "[(''b'', ''2 3''), (''a'', ''1'')] \<noteq> ([] :: gomap)" by simp
  then show ?thesis
    using d1 d2 m
      requestString_base_string [OF d1 d2 m, of "''GET''" "''http://example.com/''"]
    by presburger
qed

theorem requestString_empty_counterexample:
  "requestString ''GET'' ''http://example.com/'' []
     \<noteq> buildBaseString ''GET'' ''http://example.com/'' []"
  by (simp add: requestString_def buildBaseString_def Sort_def range_keys_def)

text \<open>
  C4 (amended). \<open>QueryEscape\<close>, the encoding the Signer applies to the URL, to each value
  and to each pair, leaves exactly the unreserved characters as they are, replaces a
  space by \<open>+\<close>, and percent-escapes every other byte.
\<close>

theorem QueryEscape_unreserved_plus:
  "QueryEscape s =
     concat (map (\<lambda>c. if c = CHR '' '' then ''+'' else percentEncode [c]) s)"
proof -
  have "escape_byte c = (if c = CHR '' '' then ''+'' else percentEncode [c])" for c
    using shouldEscape_unreserved by (simp add: escape_byte_def percentEncode_def)
  then have "escape_byte = (\<lambda>c. if c = CHR '' '' then ''+'' else percentEncode [c])"
    by (rule ext)
  then show ?thesis by (simp only: QueryEscape_def)
qed

theorem QueryEscape_space_counterexample:
  "QueryEscape ''a b'' = ''a+b'' \<and> percentEncode ''a b'' = ''a%20b''"
  by code_simp

text \<open>
  C6. For every map, \<open>authorizationString\<close> returns \<open>OAuth\<close>, a space, and the
  comma-separated \<open>key="value"\<close> pairs in ascending key order with the values as they
  are; the result does not end with a comma and does not depend on the iteration order;
  for \<open>{b: "2", a: "1"}\<close> it is \<open>OAuth a="1",b="2"\<close>.
\<close>

theorem authorizationString_header:
  assumes "distinct (map fst params)" and "distinct (map fst params')"
    and "map_of params' = map_of params"
  shows "authorizationString params = buildAuthorizationHeader params
         \<and> authorizationString params' = authorizationString params
         \<and> last (authorizationString params) \<noteq> CHR '',''
         \<and> authorizationString [(''b'', ''2''), (''a'', ''1'')] = ''OAuth a=\"1\",b=\"2\"''"
proof -
  have eq: "buildAuthorizationHeader params' = buildAuthorizationHeader params"
    unfolding buildAuthorizationHeader_def index_cong [OF assms(3)] keys_cong [OF assms(3)] ..
  have ex: "authorizationString [(''b'', ''2''), (''a'', ''1'')] = ''OAuth a=\"1\",b=\"2\"''"
    by code_simp
  have "authorizationString params' = authorizationString params"
    unfolding authorizationString_eq [OF assms(1)] authorizationString_eq [OF assms(2)] eq ..
  moreover have "last (authorizationString params) \<noteq> CHR '',''"
    unfolding authorizationString_eq [OF assms(1)] by (rule no_trailing_comma)
  ultimately show ?thesis
    using ex authorizationString_eq [OF assms(1)] by blast
qed

theorem authorizationString_header_witness:
  "distinct (map fst [(''b'', ''2''), (''a'', ''1'')])
   \<and> distinct (map fst [(''a'', ''1''), (''b'', ''2'')])
   \<and> map_of [(''a'', ''1''), (''b'', ''2'')] = map_of [(''b'', ''2''), (''a'', ''1'')]
   \<and> authorizationString [(''a'', ''1''), (''b'', ''2'')]
       = authorizationString [(''b'', ''2''), (''a'', ''1'')]
   \<and> last (authorizationString [(''b'', ''2''), (''a'', ''1'')]) \<noteq> CHR '',''"
proof -
  have d1: "distinct (map fst [(''b'', ''2''), (''a'', ''1'')])" by simp
  have d2: "distinct (map fst [(''a'', ''1''), (''b'', ''2'')])" by simp
  have m: "map_of [(''a'', ''1''), (''b'', ''2'')] = map_of [(''b'', ''2''), (''a'', ''1'')]"
    by (auto simp: fun_eq_iff)
  show ?thesis
    using d1 d2 m authorizationString_header [OF d1 d2 m]
    by blast
qed

end
